theory Spec2Isabelle
  imports Complex_Main "HOL-Library.Word" "HOL-Library.Signed_Division"
begin

unbundle bit_operations_syntax

section \<open>AT89S52 buzzer controller: data model\<close>

text \<open>
  The program is \<^verbatim>\<open>src/code/AT89S52-Buzzer1.c\<close> (SDCC, 8051); the second source file
  is the same program for the Keil compiler and differs only in the pin declarations, the
  power LED and the way the buzzer pins are set. On this target
  \<^verbatim>\<open>int\<close> is 16 bits wide and \<^verbatim>\<open>long\<close> is 32 bits wide, so
  \<^verbatim>\<open>uint8_t\<close> operands are promoted to a 16-bit \<^verbatim>\<open>int\<close> and every
  operation that involves a \<^verbatim>\<open>uint16_t\<close> is carried out modulo \<open>2 ^ 16\<close>.
  Words model exactly that: \<open>+\<close>, \<open>-\<close> and \<open>*\<close> on \<open>16 word\<close> wrap around, and
  \<open>\<le>\<close>, \<open><\<close> compare the unsigned values.

  Globals and function-local \<^verbatim>\<open>static\<close> variables are the fields of one record.
  The four \<^verbatim>\<open>lastState\<close> statics of the button functions carry the button's name.
  The timer interrupt (it only touches its own counter and the blink LED), the status
  LEDs and the busy-wait \<^verbatim>\<open>delay_ms\<close> have no influence on any field below and are
  left out; the levels of the button pins are supplied from outside.
\<close>

text \<open>\<^verbatim>\<open>int16_t\<close> has the same 16 bits as \<^verbatim>\<open>uint16_t\<close>, read as two's complement:
  \<open>- 1\<close> is the word \<open>65535\<close>.\<close>

type_synonym u8 = "8 word"
type_synonym u16 = "16 word"
type_synonym s16 = "16 word"

definition rangeParams :: "u16 list list" where
  "rangeParams = [[25, 50, 37], [9, 18, 13]]"

definition speedSteps :: "u8 list" where
  "speedSteps = [1, 2, 3, 5, 8]"

record sys_state =
  isActive :: bool
  currentRange :: bool
  currentPattern :: u8
  currentSpeed :: u8
  sweepDirection :: bool
  currentFreqDelay :: u16
  seed :: u16
  lastState_PWR :: bool
  lastState_PAT :: bool
  lastState_SPD :: bool
  lastState_RNG :: bool
  toneCounter :: u16
  pulseCount :: u16
  stepCount :: u16
  freqStep :: s16
  hbCount :: u16
  sirenCount :: u16
  chirpState :: u8
  chirpCount :: u16
  walkCount :: u16
  BUZZER :: bool
  BUZZER_COMP :: bool

text \<open>A \<^verbatim>\<open>__bit\<close> used as an array index.\<close>

definition bit_index :: "bool \<Rightarrow> nat" where
  "bit_index b = (if b then 1 else 0)"

text \<open>The locals \<^verbatim>\<open>minDelay\<close> and \<^verbatim>\<open>maxDelay\<close> of \<^verbatim>\<open>update_sweep\<close>, and
  \<^verbatim>\<open>rangeParams[currentRange][2]\<close>.\<close>

definition minDelay :: "sys_state \<Rightarrow> u16" where
  "minDelay s = rangeParams ! bit_index (currentRange s) ! 0"

definition maxDelay :: "sys_state \<Rightarrow> u16" where
  "maxDelay s = rangeParams ! bit_index (currentRange s) ! 1"

definition initDelay :: "bool \<Rightarrow> u16" where
  "initDelay r = rangeParams ! bit_index r ! 2"

text \<open>\<^verbatim>\<open>speedSteps[currentSpeed]\<close>, promoted to \<^verbatim>\<open>int\<close> and used in 16-bit
  arithmetic. The table has five entries; \<^verbatim>\<open>main\<close> keeps \<open>currentSpeed < 5\<close>.\<close>

definition speedStep :: "sys_state \<Rightarrow> u16" where
  "speedStep s = ucast (speedSteps ! unat (currentSpeed s))"

section \<open>Random number generator\<close>

text \<open>
  \<^verbatim>\<open>seed = (seed * 1103515245 + 12345) % 32768; return (uint8_t)(seed & 0xFF);\<close>

  The constants \<open>1103515245\<close> and \<open>32768\<close> do not fit a 16-bit \<^verbatim>\<open>int\<close>, so they are
  \<^verbatim>\<open>long\<close> and the whole right-hand side is computed in signed 32-bit arithmetic:
  the product and the sum keep their low 32 bits, \<^verbatim>\<open>%\<close> truncates towards zero (the
  remainder has the sign of the dividend), and the assignment keeps the low 16 bits.
\<close>

definition rand_step :: "u16 \<Rightarrow> u16" where
  "rand_step sd =
     word_of_int (sint ((ucast sd :: 32 word) * 1103515245 + 12345) smod 32768)"

definition simple_rand :: "sys_state \<Rightarrow> u8 \<times> sys_state" where
  "simple_rand s =
     (let sd = rand_step (seed s) in (ucast (sd AND 0xFF), s\<lparr>seed := sd\<rparr>))"

section \<open>Buttons\<close>

text \<open>
  A button function reads its pin, and when the level differs from \<^verbatim>\<open>lastState\<close> it
  calls \<^verbatim>\<open>delay_ms(20)\<close> and reads the pin again. The pin is given as its level as a
  function of the time elapsed since the first read, in the units of the argument of
  \<^verbatim>\<open>delay_ms\<close>: the first read is the level at 0, the second the level at 20.
\<close>

type_synonym pin_level = "nat \<Rightarrow> bool"

definition checkButton_PWR :: "pin_level \<Rightarrow> sys_state \<Rightarrow> bool \<times> sys_state" where
  "checkButton_PWR pin s =
     (let current = pin 0 in
      if current \<noteq> lastState_PWR s then
        if pin 20 = current then (\<not> current, s\<lparr>lastState_PWR := current\<rparr>)
        else (False, s)
      else (False, s))"

definition checkButton_PAT :: "pin_level \<Rightarrow> sys_state \<Rightarrow> bool \<times> sys_state" where
  "checkButton_PAT pin s =
     (let current = pin 0 in
      if current \<noteq> lastState_PAT s then
        if pin 20 = current then (\<not> current, s\<lparr>lastState_PAT := current\<rparr>)
        else (False, s)
      else (False, s))"

definition checkButton_SPD :: "pin_level \<Rightarrow> sys_state \<Rightarrow> bool \<times> sys_state" where
  "checkButton_SPD pin s =
     (let current = pin 0 in
      if current \<noteq> lastState_SPD s then
        if pin 20 = current then (\<not> current, s\<lparr>lastState_SPD := current\<rparr>)
        else (False, s)
      else (False, s))"

definition checkButton_RNG :: "pin_level \<Rightarrow> sys_state \<Rightarrow> bool \<times> sys_state" where
  "checkButton_RNG pin s =
     (let current = pin 0 in
      if current \<noteq> lastState_RNG s then
        if pin 20 = current then (\<not> current, s\<lparr>lastState_RNG := current\<rparr>)
        else (False, s)
      else (False, s))"

section \<open>Tone generation\<close>

definition generate_tone :: "sys_state \<Rightarrow> sys_state" where
  "generate_tone s =
     (let c = toneCounter s + 1 in
      if c \<ge> currentFreqDelay s then
        s\<lparr>toneCounter := 0, BUZZER := \<not> BUZZER s, BUZZER_COMP := \<not> BUZZER_COMP s\<rparr>
      else s\<lparr>toneCounter := c\<rparr>)"

section \<open>Pattern implementations\<close>

text \<open>
  One definition per \<^verbatim>\<open>case\<close> of the \<^verbatim>\<open>switch\<close> in \<^verbatim>\<open>update_sweep\<close>. Where an
  \<^verbatim>\<open>int\<close> meets \<^verbatim>\<open>currentFreqDelay\<close> it is converted to \<^verbatim>\<open>unsigned int\<close> first:
  the triangle's \<^verbatim>\<open>freqStep * speedSteps[currentSpeed]\<close> and the random walk's
  \<^verbatim>\<open>(simple_rand() % 5) - 2\<close> are added modulo \<open>2 ^ 16\<close>, so adding \<open>- 2\<close> is adding
  \<open>65534\<close>. A pre-increment inside a condition is the \<open>let c = \<dots> + 1\<close> that the
  condition and the branches then use.
\<close>

definition sweep_up :: "sys_state \<Rightarrow> sys_state" where
  "sweep_up s =
     (if currentFreqDelay s > minDelay s
      then s\<lparr>currentFreqDelay := currentFreqDelay s - speedStep s\<rparr>
      else s\<lparr>currentFreqDelay := maxDelay s\<rparr>)"

definition sweep_down :: "sys_state \<Rightarrow> sys_state" where
  "sweep_down s =
     (if currentFreqDelay s < maxDelay s
      then s\<lparr>currentFreqDelay := currentFreqDelay s + speedStep s\<rparr>
      else s\<lparr>currentFreqDelay := minDelay s\<rparr>)"

definition sweep_zigzag :: "sys_state \<Rightarrow> sys_state" where
  "sweep_zigzag s =
     (if sweepDirection s then
        if currentFreqDelay s < maxDelay s
        then s\<lparr>currentFreqDelay := currentFreqDelay s + speedStep s\<rparr>
        else s\<lparr>sweepDirection := False\<rparr>
      else
        if currentFreqDelay s > minDelay s
        then s\<lparr>currentFreqDelay := currentFreqDelay s - speedStep s\<rparr>
        else s\<lparr>sweepDirection := True\<rparr>)"

definition sweep_random :: "sys_state \<Rightarrow> sys_state" where
  "sweep_random s =
     (let (r1, s1) = simple_rand s in
      if r1 < 20 then
        let (r2, s2) = simple_rand s1 in
        s2\<lparr>currentFreqDelay := minDelay s + ucast r2 mod (maxDelay s - minDelay s + 1)\<rparr>
      else s1)"

definition sweep_pulse :: "sys_state \<Rightarrow> sys_state" where
  "sweep_pulse s =
     (let c = pulseCount s + 1;
          c' = (if c \<ge> 500 then 0 else c)
      in s\<lparr>pulseCount := c', BUZZER := (c' < 50)\<rparr>)"

definition sweep_stepped :: "sys_state \<Rightarrow> sys_state" where
  "sweep_stepped s =
     (let c = stepCount s + 1 in
      if c \<ge> 100 then
        s\<lparr>stepCount := 0,
          currentFreqDelay := minDelay s +
            (currentFreqDelay s + speedStep s - minDelay s) mod (maxDelay s - minDelay s + 1)\<rparr>
      else s\<lparr>stepCount := c\<rparr>)"

definition sweep_triangle :: "sys_state \<Rightarrow> sys_state" where
  "sweep_triangle s =
     (let d = currentFreqDelay s + freqStep s * speedStep s;
          s1 = s\<lparr>currentFreqDelay := d\<rparr>
      in if d \<le> minDelay s \<or> d \<ge> maxDelay s then s1\<lparr>freqStep := - freqStep s\<rparr> else s1)"

definition sweep_heartbeat :: "sys_state \<Rightarrow> sys_state" where
  "sweep_heartbeat s =
     (let c = hbCount s + 1;
          c' = (if c \<ge> 600 then 0 else c);
          s1 = s\<lparr>hbCount := c'\<rparr>
      in if c' < 100 then s1\<lparr>currentFreqDelay := minDelay s + 2\<rparr>
         else if c' < 150 then s1\<lparr>currentFreqDelay := maxDelay s\<rparr>
         else if c' < 250 then s1\<lparr>currentFreqDelay := minDelay s + 1\<rparr>
         else s1\<lparr>currentFreqDelay := maxDelay s\<rparr>)"

definition sweep_siren :: "sys_state \<Rightarrow> sys_state" where
  "sweep_siren s =
     (let c = sirenCount s + 1 in
      if c \<ge> 100 then
        s\<lparr>sirenCount := 0,
          currentFreqDelay := (if currentFreqDelay s = minDelay s then maxDelay s else minDelay s)\<rparr>
      else s\<lparr>sirenCount := c\<rparr>)"

definition sweep_chirps :: "sys_state \<Rightarrow> sys_state" where
  "sweep_chirps s =
     (if chirpState s = 0 then
        if currentFreqDelay s > minDelay s
        then s\<lparr>currentFreqDelay := currentFreqDelay s - speedStep s * 3\<rparr>
        else s\<lparr>chirpState := 1\<rparr>
      else
        let c = chirpCount s + 1 in
        if c > 300 then s\<lparr>chirpCount := 0, chirpState := 0, currentFreqDelay := maxDelay s\<rparr>
        else s\<lparr>chirpCount := c\<rparr>)"

definition sweep_walk :: "sys_state \<Rightarrow> sys_state" where
  "sweep_walk s =
     (let c = walkCount s + 1 in
      if c \<ge> 20 then
        let (r, s1) = simple_rand (s\<lparr>walkCount := 0\<rparr>);
            d = currentFreqDelay s + (ucast (r mod 5) - 2);
            d1 = (if d < minDelay s then minDelay s else d);
            d2 = (if d1 > maxDelay s then maxDelay s else d1)
        in s1\<lparr>currentFreqDelay := d2\<rparr>
      else s\<lparr>walkCount := c\<rparr>)"

text \<open>The \<^verbatim>\<open>switch\<close> has no \<^verbatim>\<open>default\<close>: any other pattern value changes nothing.\<close>

definition update_sweep :: "sys_state \<Rightarrow> sys_state" where
  "update_sweep s =
     (let p = currentPattern s in
      if p = 0 then sweep_up s
      else if p = 1 then sweep_down s
      else if p = 2 then sweep_zigzag s
      else if p = 3 then sweep_random s
      else if p = 4 then sweep_pulse s
      else if p = 5 then sweep_stepped s
      else if p = 6 then sweep_triangle s
      else if p = 7 then sweep_heartbeat s
      else if p = 8 then sweep_siren s
      else if p = 9 then sweep_chirps s
      else if p = 10 then sweep_walk s
      else s)"

section \<open>Main program\<close>

text \<open>The state after the initialisation in \<^verbatim>\<open>main\<close>: \<^verbatim>\<open>P3 = 0xFF\<close> sets both
  buzzer pins, the statics have their initialisers.\<close>

definition init_state :: sys_state where
  "init_state =
     \<lparr> isActive = False, currentRange = False, currentPattern = 0, currentSpeed = 0,
       sweepDirection = False, currentFreqDelay = initDelay False, seed = 12345,
       lastState_PWR = True, lastState_PAT = True, lastState_SPD = True,
       lastState_RNG = True, toneCounter = 0, pulseCount = 0, stepCount = 0,
       freqStep = 1, hbCount = 0, sirenCount = 0, chirpState = 0, chirpCount = 0,
       walkCount = 0, BUZZER = True, BUZZER_COMP = True \<rparr>"

text \<open>The pin levels seen by one pass of the main loop, one per button.\<close>

record pins =
  BTN_POWER :: pin_level
  BTN_PATTERN :: pin_level
  BTN_SPEED :: pin_level
  BTN_RANGE :: pin_level

definition main_power :: "pins \<Rightarrow> sys_state \<Rightarrow> sys_state" where
  "main_power inp s =
     (let (pressed, s1) = checkButton_PWR (BTN_POWER inp) s in
      if pressed then
        let s2 = s1\<lparr>isActive := \<not> isActive s1\<rparr> in
        if \<not> isActive s2 then s2\<lparr>BUZZER := False\<rparr> else s2
      else s1)"

definition main_pattern :: "pins \<Rightarrow> sys_state \<Rightarrow> sys_state" where
  "main_pattern inp s =
     (let (pressed, s1) = checkButton_PAT (BTN_PATTERN inp) s in
      if pressed then
        let p = currentPattern s1 + 1 in
        s1\<lparr>currentPattern := (if p \<ge> 11 then 0 else p)\<rparr>
      else s1)"

definition main_speed :: "pins \<Rightarrow> sys_state \<Rightarrow> sys_state" where
  "main_speed inp s =
     (let (pressed, s1) = checkButton_SPD (BTN_SPEED inp) s in
      if pressed then
        let v = currentSpeed s1 + 1 in
        s1\<lparr>currentSpeed := (if v \<ge> 5 then 0 else v)\<rparr>
      else s1)"

definition main_range :: "pins \<Rightarrow> sys_state \<Rightarrow> sys_state" where
  "main_range inp s =
     (let (pressed, s1) = checkButton_RNG (BTN_RANGE inp) s in
      if pressed then
        let r = \<not> currentRange s1 in
        s1\<lparr>currentRange := r, currentFreqDelay := initDelay r\<rparr>
      else s1)"

definition main_sound :: "sys_state \<Rightarrow> sys_state" where
  "main_sound s = (if isActive s then update_sweep (generate_tone s) else s)"

text \<open>One pass of \<^verbatim>\<open>while(1)\<close>.\<close>

definition main_loop :: "pins \<Rightarrow> sys_state \<Rightarrow> sys_state" where
  "main_loop inp s =
     main_sound (main_range inp (main_speed inp (main_pattern inp (main_power inp s))))"

text \<open>The program run on a finite sequence of pin levels, one element per pass.\<close>

fun run :: "pins list \<Rightarrow> sys_state \<Rightarrow> sys_state" where
  "run [] s = s"
| "run (inp # inps) s = run inps (main_loop inp s)"

text \<open>Pin levels with no button touched (all high), and with exactly one button held
  down (low) for the whole pass.\<close>

definition idle :: pins where
  "idle = \<lparr> BTN_POWER = (\<lambda>t. True), BTN_PATTERN = (\<lambda>t. True),
            BTN_SPEED = (\<lambda>t. True), BTN_RANGE = (\<lambda>t. True) \<rparr>"

definition press_power :: pins where
  "press_power = idle\<lparr>BTN_POWER := (\<lambda>t. False)\<rparr>"

definition press_pattern :: pins where
  "press_pattern = idle\<lparr>BTN_PATTERN := (\<lambda>t. False)\<rparr>"

definition press_speed :: pins where
  "press_speed = idle\<lparr>BTN_SPEED := (\<lambda>t. False)\<rparr>"

definition press_range :: pins where
  "press_range = idle\<lparr>BTN_RANGE := (\<lambda>t. False)\<rparr>"

section \<open>Definitions used in the statements\<close>

subsection \<open>The random source as the specification words it\<close>

text \<open>The recurrence over the natural numbers, \<open>seed = (seed * 1103515245 + 12345) mod 32768\<close>,
  the byte \<open>seed & 0xFF\<close>, and the bytes of \<open>n\<close> successive draws.\<close>

definition spec_rand_next :: "nat \<Rightarrow> nat" where
  "spec_rand_next sd = (sd * 1103515245 + 12345) mod 32768"

definition spec_rand_byte :: "nat \<Rightarrow> nat" where
  "spec_rand_byte sd = sd AND 0xFF"

fun spec_rand_bytes :: "nat \<Rightarrow> nat \<Rightarrow> nat list" where
  "spec_rand_bytes 0 sd = []"
| "spec_rand_bytes (Suc n) sd =
     (let sd' = spec_rand_next sd in spec_rand_byte sd' # spec_rand_bytes n sd')"

text \<open>\<open>n\<close> successive calls of \<^verbatim>\<open>simple_rand\<close>: the bytes returned and the final state.\<close>

fun rand_calls :: "nat \<Rightarrow> sys_state \<Rightarrow> u8 list \<times> sys_state" where
  "rand_calls 0 s = ([], s)"
| "rand_calls (Suc n) s =
     (let (r, s1) = simple_rand s; (rs, s2) = rand_calls n s1 in (r # rs, s2))"

subsection \<open>Observations on runs\<close>

text \<open>A button function called once on each pin level of a list: the number of press
  events it reports and the final state.\<close>

fun polls :: "(pin_level \<Rightarrow> sys_state \<Rightarrow> bool \<times> sys_state) \<Rightarrow> pin_level list \<Rightarrow>
    sys_state \<Rightarrow> nat \<times> sys_state" where
  "polls chk [] s = (0, s)"
| "polls chk (p # ps) s =
     (let (e, s1) = chk p s; (n, s2) = polls chk ps s1 in ((if e then 1 else 0) + n, s2))"

text \<open>The statics of \<^verbatim>\<open>update_sweep\<close>, in the order of their declarations.\<close>

definition counters ::
  "sys_state \<Rightarrow> u16 \<times> u16 \<times> s16 \<times> u16 \<times> u16 \<times> u8 \<times> u16 \<times> u16" where
  "counters s = (pulseCount s, stepCount s, freqStep s, hbCount s, sirenCount s,
     chirpState s, chirpCount s, walkCount s)"

text \<open>Bounds that the main loop keeps on the settings and on the statics of
  \<^verbatim>\<open>update_sweep\<close>.\<close>

definition sys_inv :: "sys_state \<Rightarrow> bool" where
  "sys_inv s =
     (currentPattern s < 11 \<and> currentSpeed s < 5 \<and> (freqStep s = 1 \<or> freqStep s = - 1) \<and>
      pulseCount s < 500 \<and> stepCount s < 100 \<and> hbCount s < 600 \<and> sirenCount s < 100 \<and>
      chirpCount s \<le> 300 \<and> (chirpState s = 0 \<and> chirpCount s = 0 \<or> chirpState s = 1) \<and>
      walkCount s < 20)"


text \<open>The state before the first and after each of \<open>n\<close> successive calls of
  \<^verbatim>\<open>update_sweep\<close>.\<close>

fun sweep_trace :: "nat \<Rightarrow> sys_state \<Rightarrow> sys_state list" where
  "sweep_trace 0 s = [s]"
| "sweep_trace (Suc n) s = s # sweep_trace n (update_sweep s)"

text \<open>The value the siren case assigns when it fires, and the value the heartbeat case
  assigns at phase counter \<open>ph\<close>.\<close>

definition siren_toggle :: "sys_state \<Rightarrow> u16 \<Rightarrow> u16" where
  "siren_toggle s p = (if p = minDelay s then maxDelay s else minDelay s)"


text \<open>The number of falling ticks of the up sweep, \<open>\<lceil>(max - min) / step\<rceil>\<close>, and the
  period the up-sweep case computes from a period \<open>p\<close>.\<close>

definition up_sweep_falls :: "sys_state \<Rightarrow> nat" where
  "up_sweep_falls s =
     nat \<lceil>(real (unat (maxDelay s)) - real (unat (minDelay s))) / real (unat (speedStep s))\<rceil>"

definition up_next :: "sys_state \<Rightarrow> u16 \<Rightarrow> u16" where
  "up_next s p = (if minDelay s < p then p - speedStep s else maxDelay s)"

subsection \<open>Concrete scenarios\<close>


text \<open>One press of the range button (high band), four of the speed button (step 8), nine
  of the pattern button (chirps), then power on.\<close>

definition chirp_wrap_inputs :: "pins list" where
  "chirp_wrap_inputs =
     [press_range, idle,
      press_speed, idle, press_speed, idle, press_speed, idle, press_speed, idle,
      press_pattern, idle, press_pattern, idle, press_pattern, idle,
      press_pattern, idle, press_pattern, idle, press_pattern, idle,
      press_pattern, idle, press_pattern, idle, press_pattern, idle,
      press_power]"

text \<open>The same presses without the final power press: the device is set to the high band,
  step 8 and the chirps pattern, and is still off.\<close>

definition chirp_setup_inputs :: "pins list" where
  "chirp_setup_inputs =
     [press_range, idle,
      press_speed, idle, press_speed, idle, press_speed, idle, press_speed, idle,
      press_pattern, idle, press_pattern, idle, press_pattern, idle,
      press_pattern, idle, press_pattern, idle, press_pattern, idle,
      press_pattern, idle, press_pattern, idle, press_pattern, idle]"

text \<open>The power-button block of \<^verbatim>\<open>main\<close> applied to the initial state with the button
  held down.\<close>

definition powered_on :: sys_state where
  "powered_on = main_power press_power init_state"

section \<open>Verification\<close>

subsection \<open>Tables and 16-bit arithmetic\<close>

lemma word_le_1: "(w::'a::len word) \<le> 1 \<longleftrightarrow> w = 0 \<or> w = 1"
  by (metis word_le_less_eq word_less_1)

lemma u8_of_unat: "unat (w::u8) = k \<Longrightarrow> w = word_of_nat k"
  by auto

lemma u8_less_5: "(w::u8) < 5 \<Longrightarrow> w = 0 \<or> w = 1 \<or> w = 2 \<or> w = 3 \<or> w = 4"
proof -
  assume "w < 5"
  then have "unat w < 5" by (simp add: word_less_nat_alt)
  then have "unat w = 0 \<or> unat w = 1 \<or> unat w = 2 \<or> unat w = 3 \<or> unat w = 4" by arith
  then show ?thesis
    by (elim disjE) (drule u8_of_unat, simp)+
qed

lemma minDelay_cases: "minDelay s = (if currentRange s then 9 else 25)"
  by (simp add: minDelay_def rangeParams_def bit_index_def)

lemma maxDelay_cases: "maxDelay s = (if currentRange s then 18 else 50)"
  by (simp add: maxDelay_def rangeParams_def bit_index_def)

lemma speedStep_cases: "currentSpeed s < 5 \<Longrightarrow> speedStep s \<in> {1, 2, 3, 5, 8}"
  by (auto simp: speedStep_def speedSteps_def dest!: u8_less_5)

lemma unat_u16_inc: "unat (c::u16) < 65535 \<Longrightarrow> unat (c + 1) = Suc (unat c)"
  by (simp add: unat_word_ariths)



lemma band_facts:
  "unat (minDelay s) < unat (maxDelay s) \<and> 9 \<le> unat (minDelay s) \<and> unat (maxDelay s) \<le> 50"
  by (simp add: minDelay_cases maxDelay_cases)

lemma step_facts:
  "currentSpeed s < 5 \<Longrightarrow> 0 < unat (speedStep s) \<and> unat (speedStep s) \<le> 8"
  using speedStep_cases [of s] by auto

subsection \<open>Reachable states\<close>

text \<open>Every state the program reaches from its initial state, on any sequence of pin
  levels, satisfies the bounds.\<close>

lemma sys_inv_init: "sys_inv init_state"
  by (simp add: sys_inv_def init_state_def)

lemma sys_inv_up: "sys_inv s \<Longrightarrow> sys_inv (sweep_up s)"
  by (simp add: sys_inv_def sweep_up_def)

lemma sys_inv_down: "sys_inv s \<Longrightarrow> sys_inv (sweep_down s)"
  by (simp add: sys_inv_def sweep_down_def)

lemma sys_inv_zigzag: "sys_inv s \<Longrightarrow> sys_inv (sweep_zigzag s)"
  by (simp add: sys_inv_def sweep_zigzag_def)

lemma sys_inv_random: "sys_inv s \<Longrightarrow> sys_inv (sweep_random s)"
  by (simp add: sys_inv_def sweep_random_def simple_rand_def Let_def)

lemma sys_inv_pulse: "sys_inv s \<Longrightarrow> sys_inv (sweep_pulse s)"
  by (simp add: sys_inv_def sweep_pulse_def Let_def not_le)

lemma sys_inv_stepped: "sys_inv s \<Longrightarrow> sys_inv (sweep_stepped s)"
  by (simp add: sys_inv_def sweep_stepped_def Let_def not_le)

lemma sys_inv_triangle: "sys_inv s \<Longrightarrow> sys_inv (sweep_triangle s)"
  by (auto simp add: sys_inv_def sweep_triangle_def Let_def)

lemma sys_inv_heartbeat: "sys_inv s \<Longrightarrow> sys_inv (sweep_heartbeat s)"
  by (simp add: sys_inv_def sweep_heartbeat_def Let_def not_le)

lemma sys_inv_siren: "sys_inv s \<Longrightarrow> sys_inv (sweep_siren s)"
  by (simp add: sys_inv_def sweep_siren_def Let_def not_le)

lemma sys_inv_chirps: "sys_inv s \<Longrightarrow> sys_inv (sweep_chirps s)"
  by (auto simp add: sys_inv_def sweep_chirps_def Let_def not_less)

lemma sys_inv_walk: "sys_inv s \<Longrightarrow> sys_inv (sweep_walk s)"
  by (simp add: sys_inv_def sweep_walk_def simple_rand_def Let_def not_le)

lemma sys_inv_sweep: "sys_inv s \<Longrightarrow> sys_inv (update_sweep s)"
  by (simp add: update_sweep_def Let_def sys_inv_up sys_inv_down sys_inv_zigzag sys_inv_random
      sys_inv_pulse sys_inv_stepped sys_inv_triangle sys_inv_heartbeat sys_inv_siren
      sys_inv_chirps sys_inv_walk)

lemma sys_inv_tone: "sys_inv s \<Longrightarrow> sys_inv (generate_tone s)"
  by (simp add: sys_inv_def generate_tone_def Let_def)

lemma sys_inv_buttons:
  "sys_inv s \<Longrightarrow> sys_inv (main_power inp s) \<and> sys_inv (main_pattern inp s) \<and>
     sys_inv (main_speed inp s) \<and> sys_inv (main_range inp s)"
  by (simp add: sys_inv_def main_power_def main_pattern_def main_speed_def main_range_def
      checkButton_PWR_def checkButton_PAT_def checkButton_SPD_def checkButton_RNG_def Let_def
      not_le)

lemma sys_inv_main_loop: "sys_inv s \<Longrightarrow> sys_inv (main_loop inp s)"
  by (simp add: main_loop_def main_sound_def sys_inv_buttons sys_inv_tone sys_inv_sweep)

lemma sys_inv_run: "sys_inv s \<Longrightarrow> sys_inv (run inps s)"
  by (induction inps arbitrary: s) (simp_all add: sys_inv_main_loop)

lemma sys_inv_reachable: "sys_inv (run inps init_state)"
  by (rule sys_inv_run) (rule sys_inv_init)

subsection \<open>Random number generator\<close>

lemma smod_mod: "(k smod 32768) mod 32768 = (k::int) mod 32768"
  by (simp add: signed_modulo_int_eq_modulo_int mod_diff_eq)

lemma mod_mod_15: "(k mod 65536) mod 32768 = (k::int) mod 32768"
  by (rule mod_mod_cancel) simp

lemma mod_mod_32: "(k mod 4294967296) mod 32768 = (k::int) mod 32768"
  by (rule mod_mod_cancel) simp

lemma sint_low: "sint (w :: 32 word) mod 32768 = uint w mod 32768"
proof -
  have "uint w = sint w mod 4294967296"
    by (simp add: uint_sint take_bit_eq_mod)
  then show ?thesis by (simp add: mod_mod_32)
qed

lemma uint_prod:
  "uint ((ucast (sd :: 16 word) :: 32 word) * 1103515245 + 12345) =
     (uint sd * 1103515245 + 12345) mod 4294967296"
  by (simp add: uint_word_ariths uint_up_ucast is_up mod_simps)

lemma rand_step_low_int:
  "uint (rand_step sd) mod 32768 = (uint sd * 1103515245 + 12345) mod 32768"
  by (simp add: rand_step_def uint_word_of_int mod_mod_15 smod_mod sint_low uint_prod mod_mod_32)

lemma mod_lin: "((a mod m) * b + c) mod m = (a * b + c) mod (m::int)"
  by (metis mod_add_left_eq mod_mult_left_eq)

lemma rand_step_low_int2:
  "uint (rand_step sd) mod 32768 = ((uint sd mod 32768) * 1103515245 + 12345) mod 32768"
  by (simp only: rand_step_low_int mod_lin)

text \<open>The low 15 bits of the stored seed follow the recurrence, whatever bit 15 is.\<close>

lemma rand_step_low: "unat (rand_step sd) mod 32768 = spec_rand_next (unat sd mod 32768)"
proof -
  have "int (unat (rand_step sd) mod 32768) = int (spec_rand_next (unat sd mod 32768))"
    unfolding spec_rand_next_def using rand_step_low_int2 [of sd]
    by (simp add: zmod_int)
  then show ?thesis by (simp only: of_nat_eq_iff)
qed

lemma and_255_nat: "(x::nat) AND 255 = x mod 256"
proof -
  have "x AND mask 8 = x mod 2 ^ 8"
    by (simp add: take_bit_eq_mask [symmetric] take_bit_eq_mod)
  moreover have "mask 8 = (255::nat)" by (simp add: mask_eq_exp_minus_1)
  ultimately show ?thesis by simp
qed

lemma mod_256_of_low: "(x mod 32768) mod 256 = (x::nat) mod 256"
  by (rule mod_mod_cancel) simp

lemma simple_rand_byte:
  "unat (fst (simple_rand s)) = spec_rand_byte (spec_rand_next (unat (seed s) mod 32768))"
proof -
  have "unat (ucast (rand_step (seed s) AND 0xFF) :: u8) = unat (rand_step (seed s)) mod 256"
    by (simp add: unsigned_ucast_eq unsigned_and_eq and_255_nat take_bit_eq_mod)
  also have "\<dots> = (unat (rand_step (seed s)) mod 32768) mod 256"
    by (simp only: mod_256_of_low)
  finally show ?thesis
    by (simp add: simple_rand_def Let_def spec_rand_byte_def and_255_nat rand_step_low)
qed

lemma simple_rand_seed:
  "unat (seed (snd (simple_rand s))) mod 32768 = spec_rand_next (unat (seed s) mod 32768)"
  by (simp add: simple_rand_def Let_def rand_step_low)

lemma rand_calls_refine:
  "unat (seed s) mod 32768 = sd \<Longrightarrow>
     map unat (fst (rand_calls n s)) = spec_rand_bytes n sd \<and>
     unat (seed (snd (rand_calls n s))) mod 32768 = (spec_rand_next ^^ n) sd"
proof (induction n arbitrary: s sd)
  case 0
  then show ?case by simp
next
  case (Suc n)
  obtain r s1 where rs: "simple_rand s = (r, s1)" by (cases "simple_rand s")
  have r: "unat r = spec_rand_byte (spec_rand_next sd)"
    using simple_rand_byte [of s] rs Suc.prems by simp
  have s1: "unat (seed s1) mod 32768 = spec_rand_next sd"
    using simple_rand_seed [of s] rs Suc.prems by simp
  from Suc.IH [OF s1] r rs show ?case
    by (auto simp add: Let_def funpow_swap1 split: prod.splits)
qed

text \<open>
  Claim C6. From a state whose seed is 12345, the bytes returned by any number \<open>n\<close> of
  successive calls of \<^verbatim>\<open>simple_rand\<close> are exactly the bytes \<open>seed & 0xFF\<close> of the
  recurrence \<open>seed = (seed * 1103515245 + 12345) mod 32768\<close> started at 12345: the
  sequence depends on nothing but the number of prior calls. The stored 16-bit seed
  agrees with the recurrence in its low 15 bits (the signed 32-bit remainder can be
  negative, which sets bit 15 of the stored value; that bit never reaches a returned
  byte or a later seed's low bits).
\<close>

theorem simple_rand_is_recurrence:
  "seed s = 12345 \<Longrightarrow>
     map unat (fst (rand_calls n s)) = spec_rand_bytes n 12345 \<and>
     unat (seed (snd (rand_calls n s))) mod 32768 = (spec_rand_next ^^ n) 12345"
  by (rule rand_calls_refine) simp

theorem simple_rand_is_recurrence_witness:
  "seed init_state = 12345 \<and>
   map unat (fst (rand_calls (Suc (Suc 0)) init_state)) = [126, 223] \<and>
   spec_rand_bytes (Suc (Suc 0)) 12345 = [126, 223]"
proof -
  have h: "seed init_state = 12345" by (simp add: init_state_def)
  have "spec_rand_bytes (Suc (Suc 0)) 12345 = [126, 223]"
    by (simp add: spec_rand_next_def spec_rand_byte_def and_255_nat Let_def)
  with simple_rand_is_recurrence [OF h, of "Suc (Suc 0)"] h show ?thesis by simp
qed

subsection \<open>Buttons\<close>

lemma hold_PWR:
  "lastState_PWR s = l \<Longrightarrow> \<forall>sig \<in> set sigs. sig 0 = l \<Longrightarrow> polls checkButton_PWR sigs s = (0, s)"
  by (induction sigs) (simp_all add: checkButton_PWR_def)

lemma debounce_PWR:
  "(pin 0 \<noteq> lastState_PWR s \<and> pin 20 \<noteq> pin 0 \<longrightarrow> checkButton_PWR pin s = (False, s)) \<and>
   (lastState_PWR s \<and> sigs \<noteq> [] \<and> (\<forall>sig \<in> set sigs. \<forall>t \<le> 20. \<not> sig t) \<longrightarrow>
      polls checkButton_PWR sigs s = (1, s\<lparr>lastState_PWR := False\<rparr>)) \<and>
   (\<not> lastState_PWR s \<and> sigs \<noteq> [] \<and> (\<forall>sig \<in> set sigs. \<forall>t \<le> 20. sig t) \<longrightarrow>
      polls checkButton_PWR sigs s = (0, s\<lparr>lastState_PWR := True\<rparr>))"
proof (intro conjI impI)
  assume "pin 0 \<noteq> lastState_PWR s \<and> pin 20 \<noteq> pin 0"
  then show "checkButton_PWR pin s = (False, s)"
    by (simp add: checkButton_PWR_def)
next
  assume a: "lastState_PWR s \<and> sigs \<noteq> [] \<and> (\<forall>sig \<in> set sigs. \<forall>t \<le> 20. \<not> sig t)"
  then obtain sig rest where sigs: "sigs = sig # rest" by (cases sigs) auto
  have first: "checkButton_PWR sig s = (True, s\<lparr>lastState_PWR := False\<rparr>)"
    using a sigs by (simp add: checkButton_PWR_def)
  have "\<forall>g \<in> set rest. g 0 = False" using a sigs by auto
  then have "polls checkButton_PWR rest (s\<lparr>lastState_PWR := False\<rparr>) = (0, s\<lparr>lastState_PWR := False\<rparr>)"
    using hold_PWR [of "s\<lparr>lastState_PWR := False\<rparr>" False rest] by simp
  with first sigs show "polls checkButton_PWR sigs s = (1, s\<lparr>lastState_PWR := False\<rparr>)"
    by simp
next
  assume a: "\<not> lastState_PWR s \<and> sigs \<noteq> [] \<and> (\<forall>sig \<in> set sigs. \<forall>t \<le> 20. sig t)"
  then obtain sig rest where sigs: "sigs = sig # rest" by (cases sigs) auto
  have first: "checkButton_PWR sig s = (False, s\<lparr>lastState_PWR := True\<rparr>)"
    using a sigs by (simp add: checkButton_PWR_def)
  have "\<forall>g \<in> set rest. g 0 = True" using a sigs by auto
  then have "polls checkButton_PWR rest (s\<lparr>lastState_PWR := True\<rparr>) = (0, s\<lparr>lastState_PWR := True\<rparr>)"
    using hold_PWR [of "s\<lparr>lastState_PWR := True\<rparr>" True rest] by simp
  with first sigs show "polls checkButton_PWR sigs s = (0, s\<lparr>lastState_PWR := True\<rparr>)"
    by simp
qed

lemma hold_PAT:
  "lastState_PAT s = l \<Longrightarrow> \<forall>sig \<in> set sigs. sig 0 = l \<Longrightarrow> polls checkButton_PAT sigs s = (0, s)"
  by (induction sigs) (simp_all add: checkButton_PAT_def)

lemma debounce_PAT:
  "(pin 0 \<noteq> lastState_PAT s \<and> pin 20 \<noteq> pin 0 \<longrightarrow> checkButton_PAT pin s = (False, s)) \<and>
   (lastState_PAT s \<and> sigs \<noteq> [] \<and> (\<forall>sig \<in> set sigs. \<forall>t \<le> 20. \<not> sig t) \<longrightarrow>
      polls checkButton_PAT sigs s = (1, s\<lparr>lastState_PAT := False\<rparr>)) \<and>
   (\<not> lastState_PAT s \<and> sigs \<noteq> [] \<and> (\<forall>sig \<in> set sigs. \<forall>t \<le> 20. sig t) \<longrightarrow>
      polls checkButton_PAT sigs s = (0, s\<lparr>lastState_PAT := True\<rparr>))"
proof (intro conjI impI)
  assume "pin 0 \<noteq> lastState_PAT s \<and> pin 20 \<noteq> pin 0"
  then show "checkButton_PAT pin s = (False, s)"
    by (simp add: checkButton_PAT_def)
next
  assume a: "lastState_PAT s \<and> sigs \<noteq> [] \<and> (\<forall>sig \<in> set sigs. \<forall>t \<le> 20. \<not> sig t)"
  then obtain sig rest where sigs: "sigs = sig # rest" by (cases sigs) auto
  have first: "checkButton_PAT sig s = (True, s\<lparr>lastState_PAT := False\<rparr>)"
    using a sigs by (simp add: checkButton_PAT_def)
  have "\<forall>g \<in> set rest. g 0 = False" using a sigs by auto
  then have "polls checkButton_PAT rest (s\<lparr>lastState_PAT := False\<rparr>) = (0, s\<lparr>lastState_PAT := False\<rparr>)"
    using hold_PAT [of "s\<lparr>lastState_PAT := False\<rparr>" False rest] by simp
  with first sigs show "polls checkButton_PAT sigs s = (1, s\<lparr>lastState_PAT := False\<rparr>)"
    by simp
next
  assume a: "\<not> lastState_PAT s \<and> sigs \<noteq> [] \<and> (\<forall>sig \<in> set sigs. \<forall>t \<le> 20. sig t)"
  then obtain sig rest where sigs: "sigs = sig # rest" by (cases sigs) auto
  have first: "checkButton_PAT sig s = (False, s\<lparr>lastState_PAT := True\<rparr>)"
    using a sigs by (simp add: checkButton_PAT_def)
  have "\<forall>g \<in> set rest. g 0 = True" using a sigs by auto
  then have "polls checkButton_PAT rest (s\<lparr>lastState_PAT := True\<rparr>) = (0, s\<lparr>lastState_PAT := True\<rparr>)"
    using hold_PAT [of "s\<lparr>lastState_PAT := True\<rparr>" True rest] by simp
  with first sigs show "polls checkButton_PAT sigs s = (0, s\<lparr>lastState_PAT := True\<rparr>)"
    by simp
qed

lemma hold_SPD:
  "lastState_SPD s = l \<Longrightarrow> \<forall>sig \<in> set sigs. sig 0 = l \<Longrightarrow> polls checkButton_SPD sigs s = (0, s)"
  by (induction sigs) (simp_all add: checkButton_SPD_def)

lemma debounce_SPD:
  "(pin 0 \<noteq> lastState_SPD s \<and> pin 20 \<noteq> pin 0 \<longrightarrow> checkButton_SPD pin s = (False, s)) \<and>
   (lastState_SPD s \<and> sigs \<noteq> [] \<and> (\<forall>sig \<in> set sigs. \<forall>t \<le> 20. \<not> sig t) \<longrightarrow>
      polls checkButton_SPD sigs s = (1, s\<lparr>lastState_SPD := False\<rparr>)) \<and>
   (\<not> lastState_SPD s \<and> sigs \<noteq> [] \<and> (\<forall>sig \<in> set sigs. \<forall>t \<le> 20. sig t) \<longrightarrow>
      polls checkButton_SPD sigs s = (0, s\<lparr>lastState_SPD := True\<rparr>))"
proof (intro conjI impI)
  assume "pin 0 \<noteq> lastState_SPD s \<and> pin 20 \<noteq> pin 0"
  then show "checkButton_SPD pin s = (False, s)"
    by (simp add: checkButton_SPD_def)
next
  assume a: "lastState_SPD s \<and> sigs \<noteq> [] \<and> (\<forall>sig \<in> set sigs. \<forall>t \<le> 20. \<not> sig t)"
  then obtain sig rest where sigs: "sigs = sig # rest" by (cases sigs) auto
  have first: "checkButton_SPD sig s = (True, s\<lparr>lastState_SPD := False\<rparr>)"
    using a sigs by (simp add: checkButton_SPD_def)
  have "\<forall>g \<in> set rest. g 0 = False" using a sigs by auto
  then have "polls checkButton_SPD rest (s\<lparr>lastState_SPD := False\<rparr>) = (0, s\<lparr>lastState_SPD := False\<rparr>)"
    using hold_SPD [of "s\<lparr>lastState_SPD := False\<rparr>" False rest] by simp
  with first sigs show "polls checkButton_SPD sigs s = (1, s\<lparr>lastState_SPD := False\<rparr>)"
    by simp
next
  assume a: "\<not> lastState_SPD s \<and> sigs \<noteq> [] \<and> (\<forall>sig \<in> set sigs. \<forall>t \<le> 20. sig t)"
  then obtain sig rest where sigs: "sigs = sig # rest" by (cases sigs) auto
  have first: "checkButton_SPD sig s = (False, s\<lparr>lastState_SPD := True\<rparr>)"
    using a sigs by (simp add: checkButton_SPD_def)
  have "\<forall>g \<in> set rest. g 0 = True" using a sigs by auto
  then have "polls checkButton_SPD rest (s\<lparr>lastState_SPD := True\<rparr>) = (0, s\<lparr>lastState_SPD := True\<rparr>)"
    using hold_SPD [of "s\<lparr>lastState_SPD := True\<rparr>" True rest] by simp
  with first sigs show "polls checkButton_SPD sigs s = (0, s\<lparr>lastState_SPD := True\<rparr>)"
    by simp
qed

lemma hold_RNG:
  "lastState_RNG s = l \<Longrightarrow> \<forall>sig \<in> set sigs. sig 0 = l \<Longrightarrow> polls checkButton_RNG sigs s = (0, s)"
  by (induction sigs) (simp_all add: checkButton_RNG_def)

lemma debounce_RNG:
  "(pin 0 \<noteq> lastState_RNG s \<and> pin 20 \<noteq> pin 0 \<longrightarrow> checkButton_RNG pin s = (False, s)) \<and>
   (lastState_RNG s \<and> sigs \<noteq> [] \<and> (\<forall>sig \<in> set sigs. \<forall>t \<le> 20. \<not> sig t) \<longrightarrow>
      polls checkButton_RNG sigs s = (1, s\<lparr>lastState_RNG := False\<rparr>)) \<and>
   (\<not> lastState_RNG s \<and> sigs \<noteq> [] \<and> (\<forall>sig \<in> set sigs. \<forall>t \<le> 20. sig t) \<longrightarrow>
      polls checkButton_RNG sigs s = (0, s\<lparr>lastState_RNG := True\<rparr>))"
proof (intro conjI impI)
  assume "pin 0 \<noteq> lastState_RNG s \<and> pin 20 \<noteq> pin 0"
  then show "checkButton_RNG pin s = (False, s)"
    by (simp add: checkButton_RNG_def)
next
  assume a: "lastState_RNG s \<and> sigs \<noteq> [] \<and> (\<forall>sig \<in> set sigs. \<forall>t \<le> 20. \<not> sig t)"
  then obtain sig rest where sigs: "sigs = sig # rest" by (cases sigs) auto
  have first: "checkButton_RNG sig s = (True, s\<lparr>lastState_RNG := False\<rparr>)"
    using a sigs by (simp add: checkButton_RNG_def)
  have "\<forall>g \<in> set rest. g 0 = False" using a sigs by auto
  then have "polls checkButton_RNG rest (s\<lparr>lastState_RNG := False\<rparr>) = (0, s\<lparr>lastState_RNG := False\<rparr>)"
    using hold_RNG [of "s\<lparr>lastState_RNG := False\<rparr>" False rest] by simp
  with first sigs show "polls checkButton_RNG sigs s = (1, s\<lparr>lastState_RNG := False\<rparr>)"
    by simp
next
  assume a: "\<not> lastState_RNG s \<and> sigs \<noteq> [] \<and> (\<forall>sig \<in> set sigs. \<forall>t \<le> 20. sig t)"
  then obtain sig rest where sigs: "sigs = sig # rest" by (cases sigs) auto
  have first: "checkButton_RNG sig s = (False, s\<lparr>lastState_RNG := True\<rparr>)"
    using a sigs by (simp add: checkButton_RNG_def)
  have "\<forall>g \<in> set rest. g 0 = True" using a sigs by auto
  then have "polls checkButton_RNG rest (s\<lparr>lastState_RNG := True\<rparr>) = (0, s\<lparr>lastState_RNG := True\<rparr>)"
    using hold_RNG [of "s\<lparr>lastState_RNG := True\<rparr>" True rest] by simp
  with first sigs show "polls checkButton_RNG sigs s = (0, s\<lparr>lastState_RNG := True\<rparr>)"
    by simp
qed

text \<open>
  Claim C5. For each of the four button functions. A flip that has reverted by the end of
  the debounce window (the level at 0 differs from \<^verbatim>\<open>lastState\<close>, the level at 20
  differs from the level at 0) reports no press and changes nothing. When the button is
  down throughout the 20-unit window of every call of a non-empty sequence of calls,
  exactly one press is reported over the whole sequence and \<^verbatim>\<open>lastState\<close> becomes low;
  when it is up throughout, no press is reported and \<^verbatim>\<open>lastState\<close> becomes high.
\<close>

theorem debounce_events:
  "((pin 0 \<noteq> lastState_PWR s \<and> pin 20 \<noteq> pin 0 \<longrightarrow> checkButton_PWR pin s = (False, s)) \<and>
    (lastState_PWR s \<and> sigs \<noteq> [] \<and> (\<forall>sig \<in> set sigs. \<forall>t \<le> 20. \<not> sig t) \<longrightarrow>
       polls checkButton_PWR sigs s = (1, s\<lparr>lastState_PWR := False\<rparr>)) \<and>
    (\<not> lastState_PWR s \<and> sigs \<noteq> [] \<and> (\<forall>sig \<in> set sigs. \<forall>t \<le> 20. sig t) \<longrightarrow>
       polls checkButton_PWR sigs s = (0, s\<lparr>lastState_PWR := True\<rparr>))) \<and>
   ((pin 0 \<noteq> lastState_PAT s \<and> pin 20 \<noteq> pin 0 \<longrightarrow> checkButton_PAT pin s = (False, s)) \<and>
    (lastState_PAT s \<and> sigs \<noteq> [] \<and> (\<forall>sig \<in> set sigs. \<forall>t \<le> 20. \<not> sig t) \<longrightarrow>
       polls checkButton_PAT sigs s = (1, s\<lparr>lastState_PAT := False\<rparr>)) \<and>
    (\<not> lastState_PAT s \<and> sigs \<noteq> [] \<and> (\<forall>sig \<in> set sigs. \<forall>t \<le> 20. sig t) \<longrightarrow>
       polls checkButton_PAT sigs s = (0, s\<lparr>lastState_PAT := True\<rparr>))) \<and>
   ((pin 0 \<noteq> lastState_SPD s \<and> pin 20 \<noteq> pin 0 \<longrightarrow> checkButton_SPD pin s = (False, s)) \<and>
    (lastState_SPD s \<and> sigs \<noteq> [] \<and> (\<forall>sig \<in> set sigs. \<forall>t \<le> 20. \<not> sig t) \<longrightarrow>
       polls checkButton_SPD sigs s = (1, s\<lparr>lastState_SPD := False\<rparr>)) \<and>
    (\<not> lastState_SPD s \<and> sigs \<noteq> [] \<and> (\<forall>sig \<in> set sigs. \<forall>t \<le> 20. sig t) \<longrightarrow>
       polls checkButton_SPD sigs s = (0, s\<lparr>lastState_SPD := True\<rparr>))) \<and>
   ((pin 0 \<noteq> lastState_RNG s \<and> pin 20 \<noteq> pin 0 \<longrightarrow> checkButton_RNG pin s = (False, s)) \<and>
    (lastState_RNG s \<and> sigs \<noteq> [] \<and> (\<forall>sig \<in> set sigs. \<forall>t \<le> 20. \<not> sig t) \<longrightarrow>
       polls checkButton_RNG sigs s = (1, s\<lparr>lastState_RNG := False\<rparr>)) \<and>
    (\<not> lastState_RNG s \<and> sigs \<noteq> [] \<and> (\<forall>sig \<in> set sigs. \<forall>t \<le> 20. sig t) \<longrightarrow>
       polls checkButton_RNG sigs s = (0, s\<lparr>lastState_RNG := True\<rparr>)))"
  using debounce_PWR [of pin s sigs] debounce_PAT [of pin s sigs] debounce_SPD [of pin s sigs]
    debounce_RNG [of pin s sigs]
  by blast

theorem debounce_events_witness:
  "checkButton_PWR (\<lambda>t. 10 \<le> t) init_state = (False, init_state) \<and>
   polls checkButton_PWR [\<lambda>t. False, \<lambda>t. False, \<lambda>t. False] init_state =
     (1, init_state\<lparr>lastState_PWR := False\<rparr>) \<and>
   polls checkButton_PWR [\<lambda>t. True, \<lambda>t. True] (init_state\<lparr>lastState_PWR := False\<rparr>) =
     (0, init_state) \<and>
   checkButton_RNG (\<lambda>t. 10 \<le> t) init_state = (False, init_state) \<and>
   polls checkButton_RNG [\<lambda>t. False, \<lambda>t. False, \<lambda>t. False] init_state =
     (1, init_state\<lparr>lastState_RNG := False\<rparr>)"
  using debounce_events [of "\<lambda>t. 10 \<le> t" init_state "[\<lambda>t. False, \<lambda>t. False, \<lambda>t. False]"]
    debounce_events [of "\<lambda>t. True" "init_state\<lparr>lastState_PWR := False\<rparr>" "[\<lambda>t. True, \<lambda>t. True]"]
  by (simp add: init_state_def)

subsection \<open>Pattern-local counters\<close>

lemma counters_sweep:
  "(currentPattern s \<noteq> 4 \<longrightarrow> pulseCount (update_sweep s) = pulseCount s) \<and>
   (currentPattern s \<noteq> 5 \<longrightarrow> stepCount (update_sweep s) = stepCount s) \<and>
   (currentPattern s \<noteq> 6 \<longrightarrow> freqStep (update_sweep s) = freqStep s) \<and>
   (currentPattern s \<noteq> 7 \<longrightarrow> hbCount (update_sweep s) = hbCount s) \<and>
   (currentPattern s \<noteq> 8 \<longrightarrow> sirenCount (update_sweep s) = sirenCount s) \<and>
   (currentPattern s \<noteq> 9 \<longrightarrow> chirpState (update_sweep s) = chirpState s \<and>
      chirpCount (update_sweep s) = chirpCount s) \<and>
   (currentPattern s \<noteq> 10 \<longrightarrow> walkCount (update_sweep s) = walkCount s)"
  by (simp add: update_sweep_def sweep_up_def sweep_down_def sweep_zigzag_def sweep_random_def
      sweep_pulse_def sweep_stepped_def sweep_triangle_def sweep_heartbeat_def sweep_siren_def
      sweep_chirps_def sweep_walk_def simple_rand_def Let_def split: prod.splits)

lemma counters_buttons:
  "counters (main_power inp s) = counters s \<and> counters (main_pattern inp s) = counters s \<and>
   counters (main_speed inp s) = counters s \<and> counters (main_range inp s) = counters s \<and>
   counters (generate_tone s) = counters s"
  by (simp add: counters_def main_power_def main_pattern_def main_speed_def main_range_def
      generate_tone_def checkButton_PWR_def checkButton_PAT_def checkButton_SPD_def
      checkButton_RNG_def Let_def)

text \<open>
  Claim C4, as the code has it: a counter moves only in the \<^verbatim>\<open>case\<close> of its own pattern.
  With pattern 0 selected, three sweep steps after power-on lower the period from 37 to
  34 and leave the heartbeat counter where it was.
\<close>

theorem counters_keep_advancing_counterexample:
  "currentPattern (run [press_power, idle, idle] init_state) = 0 \<and>
   currentFreqDelay (run [press_power, idle, idle] init_state) = 34 \<and>
   hbCount (run [press_power, idle, idle] init_state) = hbCount init_state"
  by code_simp

text \<open>
  Claim C4, amended. The pattern-local counters persist: one sweep step leaves the
  counters of every pattern other than the selected one unchanged (they do not advance
  while their pattern is not selected), and neither a button block of \<^verbatim>\<open>main\<close>, in
  particular a pattern switch, nor the tone generator resets or changes any of them; a
  pattern selected again resumes from the values it left.
\<close>

theorem counters_persist:
  "(currentPattern s \<noteq> 4 \<longrightarrow> pulseCount (update_sweep s) = pulseCount s) \<and>
   (currentPattern s \<noteq> 5 \<longrightarrow> stepCount (update_sweep s) = stepCount s) \<and>
   (currentPattern s \<noteq> 6 \<longrightarrow> freqStep (update_sweep s) = freqStep s) \<and>
   (currentPattern s \<noteq> 7 \<longrightarrow> hbCount (update_sweep s) = hbCount s) \<and>
   (currentPattern s \<noteq> 8 \<longrightarrow> sirenCount (update_sweep s) = sirenCount s) \<and>
   (currentPattern s \<noteq> 9 \<longrightarrow> chirpState (update_sweep s) = chirpState s \<and>
      chirpCount (update_sweep s) = chirpCount s) \<and>
   (currentPattern s \<noteq> 10 \<longrightarrow> walkCount (update_sweep s) = walkCount s) \<and>
   counters (main_power inp s) = counters s \<and> counters (main_pattern inp s) = counters s \<and>
   counters (main_speed inp s) = counters s \<and> counters (main_range inp s) = counters s \<and>
   counters (generate_tone s) = counters s"
  using counters_sweep [of s] counters_buttons [of inp s] by blast

theorem counters_persist_witness:
  "currentPattern init_state = 0 \<and>
   counters (update_sweep init_state) = counters init_state \<and>
   counters (main_pattern press_pattern init_state) = counters init_state \<and>
   currentPattern (main_pattern press_pattern init_state) = 1"
proof -
  have p: "currentPattern init_state = 0" by (simp add: init_state_def)
  have "currentPattern (main_pattern press_pattern init_state) = 1"
    by (simp add: main_pattern_def checkButton_PAT_def press_pattern_def idle_def init_state_def
        word_le_1)
  with counters_persist [of init_state press_pattern] p show ?thesis
    by (simp add: counters_def)
qed

subsection \<open>Up sweep\<close>

lemma falls_less:
  assumes "0 < st"
  shows "(j < nat \<lceil>(real M - real m) / real st\<rceil>) = (m + j * st < M)"
proof -
  let ?x = "(real M - real m) / real st"
  have "(j < nat \<lceil>?x\<rceil>) = (int j < \<lceil>?x\<rceil>)" by linarith
  also have "\<dots> = (real j < ?x)" by (simp add: less_ceiling_iff)
  also have "\<dots> = (real j * real st < real M - real m)"
    using assms by (simp add: pos_less_divide_eq)
  also have "\<dots> = (real (m + j * st) < real M)" by (simp add: algebra_simps)
  also have "\<dots> = (m + j * st < M)" by (simp only: of_nat_less_iff)
  finally show ?thesis .
qed

lemma update_sweep_up:
  "currentPattern s = 0 \<Longrightarrow>
     update_sweep (s\<lparr>currentFreqDelay := p\<rparr>) = s\<lparr>currentFreqDelay := up_next s p\<rparr>"
  by (simp add: update_sweep_def sweep_up_def up_next_def minDelay_def maxDelay_def speedStep_def)

lemma up_iter:
  "currentPattern s = 0 \<Longrightarrow>
     (update_sweep ^^ j) s = s\<lparr>currentFreqDelay := (up_next s ^^ j) (currentFreqDelay s)\<rparr>"
  by (induction j) (simp_all add: update_sweep_up)

lemma up_next_fall:
  assumes "currentSpeed s < 5" and "unat (minDelay s) < unat p"
  shows "unat (up_next s p) = unat p - unat (speedStep s)"
proof -
  have "speedStep s \<le> p"
    using assms band_facts [of s] step_facts [of s] by (simp add: word_le_nat_alt)
  then show ?thesis
    using assms(2) by (simp add: up_next_def word_less_nat_alt unat_sub)
qed

lemma up_falling:
  assumes sp: "currentSpeed s < 5"
  shows "j \<le> up_sweep_falls s \<Longrightarrow>
     unat ((up_next s ^^ j) (maxDelay s)) = unat (maxDelay s) - j * unat (speedStep s) \<and>
     j * unat (speedStep s) < unat (maxDelay s)"
proof (induction j)
  case 0
  show ?case using band_facts [of s] by simp
next
  case (Suc j)
  let ?M = "unat (maxDelay s)" and ?m = "unat (minDelay s)" and ?st = "unat (speedStep s)"
  from Suc have IH: "unat ((up_next s ^^ j) (maxDelay s)) = ?M - j * ?st"
    and lt: "j < up_sweep_falls s" by simp_all
  have st: "0 < ?st" "?st \<le> 8" using step_facts [OF sp] by simp_all
  have above: "?m + j * ?st < ?M"
    using lt falls_less [OF st(1), of j ?M ?m] by (simp add: up_sweep_falls_def)
  then have "?m < unat ((up_next s ^^ j) (maxDelay s))" using IH by simp
  then have "unat ((up_next s ^^ Suc j) (maxDelay s)) = ?M - j * ?st - ?st"
    using up_next_fall [OF sp] IH by simp
  moreover have "Suc j * ?st < ?M"
    using above st band_facts [of s] by simp
  ultimately show ?case by simp
qed

lemma up_bottom:
  assumes sp: "currentSpeed s < 5"
  shows "(up_next s ^^ up_sweep_falls s) (maxDelay s) \<le> minDelay s"
proof -
  let ?M = "unat (maxDelay s)" and ?m = "unat (minDelay s)" and ?st = "unat (speedStep s)"
  let ?k = "up_sweep_falls s"
  have st: "0 < ?st" using step_facts [OF sp] by simp
  have "\<not> (?m + ?k * ?st < ?M)"
    using falls_less [OF st, of ?k ?M ?m] by (simp add: up_sweep_falls_def)
  moreover have "unat ((up_next s ^^ ?k) (maxDelay s)) = ?M - ?k * ?st"
    using up_falling [OF sp, of ?k] by simp
  ultimately show ?thesis by (simp add: word_le_nat_alt)
qed

lemma up_reset:
  assumes sp: "currentSpeed s < 5"
  shows "(up_next s ^^ Suc (up_sweep_falls s)) (maxDelay s) = maxDelay s"
  using up_bottom [OF sp] by (simp add: up_next_def not_less [symmetric])

text \<open>
  Claim C7. With pattern 0 selected and the period at the band's maximum, for either band
  and any of the five steps: during the first \<open>\<lceil>(max - min) / step\<rceil>\<close> ticks the period is
  \<open>max - j * step\<close> after \<open>j\<close> ticks, without wrapping, and stays above the minimum before
  the last of them; after the last it has reached or passed the minimum; the next tick
  restores the starting state. Hence the run is periodic with \<open>\<lceil>(max - min) / step\<rceil> + 1\<close>
  ticks, and no shorter run returns to the start.
\<close>

theorem up_sweep_sawtooth:
  assumes "currentPattern s = 0" and "currentSpeed s < 5" and "currentFreqDelay s = maxDelay s"
  shows "(j \<le> up_sweep_falls s \<longrightarrow>
            unat (currentFreqDelay ((update_sweep ^^ j) s)) =
              unat (maxDelay s) - j * unat (speedStep s) \<and>
            j * unat (speedStep s) < unat (maxDelay s)) \<and>
         (j < up_sweep_falls s \<longrightarrow> minDelay s < currentFreqDelay ((update_sweep ^^ j) s)) \<and>
         currentFreqDelay ((update_sweep ^^ up_sweep_falls s) s) \<le> minDelay s \<and>
         (update_sweep ^^ (up_sweep_falls s + 1)) s = s \<and>
         (update_sweep ^^ (n + (up_sweep_falls s + 1))) s = (update_sweep ^^ n) s \<and>
         (0 < j \<and> j \<le> up_sweep_falls s \<longrightarrow> (update_sweep ^^ j) s \<noteq> s)"
proof -
  let ?M = "unat (maxDelay s)" and ?m = "unat (minDelay s)" and ?st = "unat (speedStep s)"
  let ?k = "up_sweep_falls s"
  have st: "0 < ?st" using step_facts [OF assms(2)] by simp
  have per: "currentFreqDelay ((update_sweep ^^ i) s) = (up_next s ^^ i) (maxDelay s)" for i
    using up_iter [OF assms(1), of i] assms(3) by simp
  have fall: "unat (currentFreqDelay ((update_sweep ^^ j) s)) = ?M - j * ?st \<and> j * ?st < ?M"
    if "j \<le> ?k"
    using up_falling [OF assms(2) that] per by simp
  have above: "minDelay s < currentFreqDelay ((update_sweep ^^ j) s)" if "j < ?k"
  proof -
    from that have "?m + j * ?st < ?M"
      using falls_less [OF st, of j ?M ?m] by (simp add: up_sweep_falls_def)
    moreover have "unat (currentFreqDelay ((update_sweep ^^ j) s)) = ?M - j * ?st"
      using fall that by simp
    ultimately show ?thesis by (simp add: word_less_nat_alt)
  qed
  have bottom: "currentFreqDelay ((update_sweep ^^ ?k) s) \<le> minDelay s"
    using up_bottom [OF assms(2)] per by simp
  have "(update_sweep ^^ Suc ?k) s = s\<lparr>currentFreqDelay := maxDelay s\<rparr>"
    using up_iter [OF assms(1), of "Suc ?k"] up_reset [OF assms(2)] assms(3) by simp
  then have cycle: "(update_sweep ^^ (?k + 1)) s = s"
    using assms(3) [symmetric] by simp
  have periodic: "(update_sweep ^^ (n + (?k + 1))) s = (update_sweep ^^ n) s"
    using cycle by (simp only: funpow_add o_apply)
  have distinct: "(update_sweep ^^ j) s \<noteq> s" if "0 < j \<and> j \<le> ?k"
  proof
    assume "(update_sweep ^^ j) s = s"
    then have "unat (currentFreqDelay ((update_sweep ^^ j) s)) = ?M"
      using assms(3) by simp
    moreover have "unat (currentFreqDelay ((update_sweep ^^ j) s)) = ?M - j * ?st" "j * ?st < ?M"
      using fall that by simp_all
    moreover have "0 < j * ?st" using that st by simp
    ultimately show False by linarith
  qed
  from fall above bottom cycle periodic distinct show ?thesis by blast
qed

theorem up_sweep_sawtooth_witness:
  "currentPattern (init_state\<lparr>currentFreqDelay := 50\<rparr>) = 0 \<and>
   currentSpeed (init_state\<lparr>currentFreqDelay := 50\<rparr>) < 5 \<and>
   currentFreqDelay (init_state\<lparr>currentFreqDelay := 50\<rparr>) =
     maxDelay (init_state\<lparr>currentFreqDelay := 50\<rparr>) \<and>
   up_sweep_falls (init_state\<lparr>currentFreqDelay := 50\<rparr>) = 25 \<and>
   unat (currentFreqDelay ((update_sweep ^^ 7) (init_state\<lparr>currentFreqDelay := 50\<rparr>))) = 43 \<and>
   unat (currentFreqDelay ((update_sweep ^^ 25) (init_state\<lparr>currentFreqDelay := 50\<rparr>))) = 25 \<and>
   (update_sweep ^^ 26) (init_state\<lparr>currentFreqDelay := 50\<rparr>) =
     init_state\<lparr>currentFreqDelay := 50\<rparr>"
proof -
  let ?s = "init_state\<lparr>currentFreqDelay := 50\<rparr>"
  have vals: "minDelay ?s = 25" "maxDelay ?s = 50" "speedStep ?s = 1"
    by (simp_all add: init_state_def minDelay_def maxDelay_def speedStep_def
        rangeParams_def speedSteps_def bit_index_def)
  have h1: "currentPattern ?s = 0" by (simp add: init_state_def)
  have h2: "currentSpeed ?s < 5" by (simp add: init_state_def)
  have h3: "currentFreqDelay ?s = maxDelay ?s" by (simp add: vals)
  have k: "up_sweep_falls ?s = 25" by (simp add: up_sweep_falls_def vals)
  from up_sweep_sawtooth [OF h1 h2 h3, of 7 0] up_sweep_sawtooth [OF h1 h2 h3, of 25 0]
    h1 h2 h3 k
  show ?thesis by (simp add: vals)
qed

text \<open>
  Claim C2, as the code has it: after the power press the thirteenth sweep step yields
  50, not 25, and the fourteenth yields 49, not 50.
\<close>

theorem power_on_scenario_counterexample:
  "isActive powered_on \<and>
   currentFreqDelay ((update_sweep ^^ 13) powered_on) = 50 \<and>
   currentFreqDelay ((update_sweep ^^ 14) powered_on) = 49"
  by (simp only: eval_nat_numeral BitM.simps funpow.simps o_apply id_apply) code_simp

text \<open>
  Claim C2, amended. From the initial state a confirmed power press sets
  \<^verbatim>\<open>isActive\<close>; the next twelve sweep steps (speed 0, step 1) take the period from 37
  down to the minimum 25, and the thirteenth sets it to the maximum 50.
\<close>

theorem power_on_scenario:
  "\<not> isActive init_state \<and> \<not> currentRange init_state \<and> currentPattern init_state = 0 \<and>
   currentSpeed init_state = 0 \<and> currentFreqDelay init_state = 37 \<and>
   isActive powered_on \<and>
   map currentFreqDelay (sweep_trace 13 powered_on) =
     [37, 36, 35, 34, 33, 32, 31, 30, 29, 28, 27, 26, 25, 50] \<and>
   currentFreqDelay ((update_sweep ^^ 12) powered_on) = minDelay powered_on \<and>
   currentFreqDelay ((update_sweep ^^ 13) powered_on) = maxDelay powered_on"
  by (simp only: eval_nat_numeral BitM.simps funpow.simps sweep_trace.simps o_apply id_apply)
    code_simp

subsection \<open>Heartbeat\<close>







subsection \<open>Siren\<close>

lemma siren_sweep:
  assumes "currentPattern t = 8" and "unat (sirenCount t) < 100"
  shows "currentPattern (update_sweep t) = 8 \<and> currentRange (update_sweep t) = currentRange t \<and>
    unat (sirenCount (update_sweep t)) =
      (if unat (sirenCount t) = 99 then 0 else Suc (unat (sirenCount t))) \<and>
    currentFreqDelay (update_sweep t) =
      (if unat (sirenCount t) = 99 then siren_toggle t (currentFreqDelay t)
       else currentFreqDelay t)"
proof -
  have inc: "unat (sirenCount t + 1) = Suc (unat (sirenCount t))"
    using assms(2) by (simp add: unat_u16_inc)
  have "(100 \<le> sirenCount t + 1) = (100 \<le> unat (sirenCount t + 1))"
    by (simp add: word_le_nat_alt)
  also have "\<dots> = (unat (sirenCount t) = 99)"
    using assms(2) inc by arith
  finally show ?thesis
    using assms(1) inc by (simp add: update_sweep_def sweep_siren_def siren_toggle_def Let_def)
qed

lemma siren_toggle_range: "currentRange t = currentRange s \<Longrightarrow> siren_toggle t = siren_toggle s"
  by (simp add: siren_toggle_def fun_eq_iff minDelay_def maxDelay_def)

lemma mod_div_Suc_wrap: "n mod 100 = 99 \<Longrightarrow> Suc n mod 100 = 0 \<and> Suc n div 100 = Suc (n div 100)"
  by (simp add: mod_Suc div_Suc)

lemma mod_div_Suc_step: "n mod 100 \<noteq> 99 \<Longrightarrow> Suc n mod 100 = Suc (n mod 100) \<and> Suc n div 100 = n div 100"
  by (simp add: mod_Suc div_Suc)

lemma siren_iter:
  assumes "currentPattern s = 8" and "unat (sirenCount s) < 100"
  shows "currentPattern ((update_sweep ^^ n) s) = 8 \<and>
         currentRange ((update_sweep ^^ n) s) = currentRange s \<and>
         unat (sirenCount ((update_sweep ^^ n) s)) = (unat (sirenCount s) + n) mod 100 \<and>
         currentFreqDelay ((update_sweep ^^ n) s) =
           (siren_toggle s ^^ ((unat (sirenCount s) + n) div 100)) (currentFreqDelay s)"
proof (induction n)
  case 0
  show ?case using assms by simp
next
  case (Suc n)
  let ?t = "(update_sweep ^^ n) s"
  let ?k = "unat (sirenCount s) + n"
  from Suc have pat: "currentPattern ?t = 8" and rng: "currentRange ?t = currentRange s"
    and c: "unat (sirenCount ?t) = ?k mod 100"
    and p: "currentFreqDelay ?t = (siren_toggle s ^^ (?k div 100)) (currentFreqDelay s)"
    by blast+
  have lt: "unat (sirenCount ?t) < 100" using c by simp
  note st = siren_sweep [OF pat lt]
  note tog = siren_toggle_range [OF rng]
  show ?case
  proof (cases "?k mod 100 = 99")
    case True
    with st c p rng tog mod_div_Suc_wrap [OF True] show ?thesis by simp
  next
    case False
    with st c p rng mod_div_Suc_step [OF False] show ?thesis by simp
  qed
qed

text \<open>
  Claim C10. With pattern 8 selected the counter runs modulo 100 and the period is toggled
  once per completed hundred: a toggle sets the period to the maximum if it equals the
  minimum and to the minimum for every other value. Once the first toggle has happened
  the period is the band's minimum or maximum.
\<close>

theorem siren_toggles:
  assumes "currentPattern s = 8" and "sirenCount s < 100"
  shows "unat (sirenCount ((update_sweep ^^ n) s)) = (unat (sirenCount s) + n) mod 100 \<and>
         currentFreqDelay ((update_sweep ^^ n) s) =
           (siren_toggle s ^^ ((unat (sirenCount s) + n) div 100)) (currentFreqDelay s) \<and>
         (100 \<le> unat (sirenCount s) + n \<longrightarrow>
            currentFreqDelay ((update_sweep ^^ n) s) \<in> {minDelay s, maxDelay s})"
proof -
  let ?k = "unat (sirenCount s) + n"
  have h: "unat (sirenCount s) < 100"
    using assms(2) by (simp add: word_less_nat_alt)
  note it = siren_iter [OF assms(1) h, of n]
  have "currentFreqDelay ((update_sweep ^^ n) s) \<in> {minDelay s, maxDelay s}" if "100 \<le> ?k"
  proof -
    from that have "0 < ?k div 100" by (simp add: div_greater_zero_iff)
    then obtain m where "?k div 100 = Suc m" by (cases "?k div 100") simp_all
    with it show ?thesis by (simp add: siren_toggle_def)
  qed
  with it show ?thesis by blast
qed

theorem siren_toggles_witness:
  "currentPattern (init_state\<lparr>currentPattern := 8\<rparr>) = 8 \<and>
   sirenCount (init_state\<lparr>currentPattern := 8\<rparr>) < 100 \<and>
   currentFreqDelay ((update_sweep ^^ 100) (init_state\<lparr>currentPattern := 8\<rparr>)) = 25 \<and>
   currentFreqDelay ((update_sweep ^^ 200) (init_state\<lparr>currentPattern := 8\<rparr>)) = 50 \<and>
   unat (sirenCount ((update_sweep ^^ 250) (init_state\<lparr>currentPattern := 8\<rparr>))) = 50"
proof -
  let ?s = "init_state\<lparr>currentPattern := 8\<rparr>"
  have h1: "currentPattern ?s = 8" by simp
  have h2: "sirenCount ?s < 100" by (simp add: init_state_def)
  have c0: "sirenCount init_state = 0" by (simp add: init_state_def)
  have p0: "currentFreqDelay ?s = 37" "minDelay ?s = 25" "maxDelay ?s = 50"
    by (simp_all add: init_state_def initDelay_def minDelay_def maxDelay_def rangeParams_def
        bit_index_def)
  have one: "siren_toggle ?s 37 = 25"
    by (simp add: siren_toggle_def p0)
  have "(siren_toggle ?s ^^ 2) 37 = siren_toggle ?s (siren_toggle ?s 37)"
    by (simp only: numeral_2_eq_2 funpow.simps o_apply id_apply)
  then have two: "(siren_toggle ?s ^^ 2) 37 = 50"
    by (simp add: siren_toggle_def p0)
  from siren_toggles [OF h1 h2, of 100] siren_toggles [OF h1 h2, of 200]
    siren_toggles [OF h1 h2, of 250] h1 h2 show ?thesis
    by (simp add: c0 p0 one two)
qed

subsection \<open>Chirps\<close>

lemma chirps_falling:
  assumes "currentPattern s = 9" and "chirpState s = 0" and "minDelay s < currentFreqDelay s"
  shows "update_sweep s = s\<lparr>currentFreqDelay := currentFreqDelay s - speedStep s * 3\<rparr>"
  using assms by (simp add: update_sweep_def sweep_chirps_def)

lemma chirps_to_pause:
  assumes "currentPattern s = 9" and "chirpState s = 0" and "currentFreqDelay s \<le> minDelay s"
  shows "update_sweep s = s\<lparr>chirpState := 1\<rparr>"
  using assms by (simp add: update_sweep_def sweep_chirps_def not_less [symmetric])

lemma speedStep_times_3:
  assumes "currentSpeed s < 5"
  shows "unat (speedStep s * 3) = 3 * unat (speedStep s)"
  using speedStep_cases [OF assms] by auto

lemma chirps_falling_exact:
  assumes "currentSpeed s < 5" and "3 * unat (speedStep s) \<le> unat (currentFreqDelay s)"
  shows "unat (currentFreqDelay s - speedStep s * 3) =
           unat (currentFreqDelay s) - 3 * unat (speedStep s)"
proof -
  have "speedStep s * 3 \<le> currentFreqDelay s"
    using assms by (simp add: word_le_nat_alt speedStep_times_3)
  then show ?thesis
    using assms(1) by (simp add: unat_sub speedStep_times_3)
qed

text \<open>In the low band three steps never exceed a period above the minimum.\<close>

lemma chirps_low_band:
  assumes "\<not> currentRange s" and "currentSpeed s < 5" and "minDelay s < currentFreqDelay s"
  shows "3 * unat (speedStep s) \<le> unat (currentFreqDelay s)"
proof -
  have "25 < unat (currentFreqDelay s)"
    using assms(1,3) by (simp add: minDelay_cases word_less_nat_alt)
  moreover have "unat (speedStep s) \<le> 8"
    using step_facts [OF assms(2)] by simp
  ultimately show ?thesis by simp
qed

lemma u16_of_nat_Suc: "k < 65535 \<Longrightarrow> unat (word_of_nat (Suc k) :: u16) = Suc k"
  by (simp add: unat_of_nat del: of_nat_Suc)

lemma update_sweep_chirps: "currentPattern s = 9 \<Longrightarrow> update_sweep s = sweep_chirps s"
  by (simp add: update_sweep_def)

lemma chirps_pause_iter:
  assumes "currentPattern s = 9" and "chirpState s \<noteq> 0" and "chirpCount s = 0"
  shows "k \<le> 300 \<Longrightarrow> (update_sweep ^^ k) s = s\<lparr>chirpCount := word_of_nat k\<rparr>"
proof (induction k)
  case 0
  show ?case using assms(3) by simp
next
  case (Suc k)
  then have t: "(update_sweep ^^ k) s = s\<lparr>chirpCount := word_of_nat k\<rparr>" and k: "Suc k \<le> 300"
    by simp_all
  have "k < 65535" using k by simp
  then have "unat (word_of_nat (Suc k) :: u16) = Suc k"
    by (rule u16_of_nat_Suc)
  then have "\<not> (300 < (word_of_nat (Suc k) :: u16))"
    using k by (simp add: word_less_nat_alt)
  then have "\<not> (300 < (word_of_nat k + 1 :: u16))"
    by (simp add: add.commute)
  moreover have "(update_sweep ^^ Suc k) s = sweep_chirps (s\<lparr>chirpCount := word_of_nat k\<rparr>)"
    using assms(1) by (simp add: t update_sweep_chirps)
  ultimately show ?case
    using assms(2) by (simp add: sweep_chirps_def Let_def add.commute)
qed

lemma chirps_pause_end:
  assumes "currentPattern s = 9" and "chirpState s \<noteq> 0" and "chirpCount s = 0"
  shows "(update_sweep ^^ 301) s =
           s\<lparr>chirpCount := 0, chirpState := 0, currentFreqDelay := maxDelay s\<rparr>"
proof -
  have t: "(update_sweep ^^ 300) s = s\<lparr>chirpCount := 300\<rparr>"
    using chirps_pause_iter [OF assms, of 300] by simp
  have "(301::nat) = Suc 300" by simp
  then have "(update_sweep ^^ 301) s = update_sweep ((update_sweep ^^ 300) s)"
    by (simp only: funpow.simps o_apply)
  also have "\<dots> = s\<lparr>chirpCount := 0, chirpState := 0, currentFreqDelay := maxDelay s\<rparr>"
    using assms(1,2) by (simp add: t update_sweep_chirps sweep_chirps_def Let_def maxDelay_def)
  finally show ?thesis .
qed

text \<open>
  What the chirps case does, phase by phase. In the falling sub-state a tick with the
  period above the minimum subtracts three steps in 16-bit arithmetic, which is a decrease
  by three steps only when three steps do not exceed the period; a tick with the period at
  or below the minimum only switches to the pause sub-state. From the start of a pause,
  300 ticks change nothing but the pause counter, and the tick after them sets the period
  to the maximum and returns to the falling sub-state with the counter cleared.
\<close>

lemma chirps_phases:
  assumes "currentPattern s = 9"
  shows "(chirpState s = 0 \<and> minDelay s < currentFreqDelay s \<longrightarrow>
            update_sweep s = s\<lparr>currentFreqDelay := currentFreqDelay s - speedStep s * 3\<rparr>) \<and>
         (chirpState s = 0 \<and> minDelay s < currentFreqDelay s \<and> currentSpeed s < 5 \<and>
            3 * unat (speedStep s) \<le> unat (currentFreqDelay s) \<longrightarrow>
            unat (currentFreqDelay (update_sweep s)) =
              unat (currentFreqDelay s) - 3 * unat (speedStep s)) \<and>
         (chirpState s = 0 \<and> currentFreqDelay s \<le> minDelay s \<longrightarrow>
            update_sweep s = s\<lparr>chirpState := 1\<rparr>) \<and>
         (chirpState s \<noteq> 0 \<and> chirpCount s = 0 \<and> k \<le> 300 \<longrightarrow>
            (update_sweep ^^ k) s = s\<lparr>chirpCount := word_of_nat k\<rparr>) \<and>
         (chirpState s \<noteq> 0 \<and> chirpCount s = 0 \<longrightarrow>
            (update_sweep ^^ 301) s =
              s\<lparr>chirpCount := 0, chirpState := 0, currentFreqDelay := maxDelay s\<rparr>)"
proof (intro conjI impI)
  assume "chirpState s = 0 \<and> minDelay s < currentFreqDelay s"
  then show "update_sweep s = s\<lparr>currentFreqDelay := currentFreqDelay s - speedStep s * 3\<rparr>"
    using chirps_falling [OF assms] by simp
next
  assume a: "chirpState s = 0 \<and> minDelay s < currentFreqDelay s \<and> currentSpeed s < 5 \<and>
    3 * unat (speedStep s) \<le> unat (currentFreqDelay s)"
  then have "update_sweep s = s\<lparr>currentFreqDelay := currentFreqDelay s - speedStep s * 3\<rparr>"
    using chirps_falling [OF assms] by simp
  then show "unat (currentFreqDelay (update_sweep s)) =
      unat (currentFreqDelay s) - 3 * unat (speedStep s)"
    using a chirps_falling_exact [of s] by simp
next
  assume "chirpState s = 0 \<and> currentFreqDelay s \<le> minDelay s"
  then show "update_sweep s = s\<lparr>chirpState := 1\<rparr>"
    using chirps_to_pause [OF assms] by simp
next
  assume "chirpState s \<noteq> 0 \<and> chirpCount s = 0 \<and> k \<le> 300"
  then show "(update_sweep ^^ k) s = s\<lparr>chirpCount := word_of_nat k\<rparr>"
    using chirps_pause_iter [OF assms, of k] by simp
next
  assume "chirpState s \<noteq> 0 \<and> chirpCount s = 0"
  then show "(update_sweep ^^ 301) s =
      s\<lparr>chirpCount := 0, chirpState := 0, currentFreqDelay := maxDelay s\<rparr>"
    using chirps_pause_end [OF assms] by simp
qed

lemma chirps_phases_example:
  "currentPattern (init_state\<lparr>currentPattern := 9\<rparr>) = 9 \<and>
   currentFreqDelay (update_sweep (init_state\<lparr>currentPattern := 9\<rparr>)) = 34 \<and>
   update_sweep (init_state\<lparr>currentPattern := 9, currentFreqDelay := 25\<rparr>) =
     init_state\<lparr>currentPattern := 9, currentFreqDelay := 25, chirpState := 1\<rparr> \<and>
   (update_sweep ^^ 300) (init_state\<lparr>currentPattern := 9, currentFreqDelay := 25, chirpState := 1\<rparr>) =
     init_state\<lparr>currentPattern := 9, currentFreqDelay := 25, chirpState := 1, chirpCount := 300\<rparr> \<and>
   (update_sweep ^^ 301) (init_state\<lparr>currentPattern := 9, currentFreqDelay := 25, chirpState := 1\<rparr>) =
     init_state\<lparr>currentPattern := 9, currentFreqDelay := 50\<rparr>"
proof -
  let ?f = "init_state\<lparr>currentPattern := 9\<rparr>"
  let ?b = "init_state\<lparr>currentPattern := 9, currentFreqDelay := 25\<rparr>"
  let ?p = "init_state\<lparr>currentPattern := 9, currentFreqDelay := 25, chirpState := 1\<rparr>"
  have vals: "minDelay init_state = 25" "maxDelay init_state = 50" "speedStep init_state = 1"
      "currentFreqDelay init_state = 37" "chirpState init_state = 0" "chirpCount init_state = 0"
      "currentSpeed init_state = 0"
    by (simp_all add: init_state_def initDelay_def minDelay_def maxDelay_def speedStep_def
        rangeParams_def speedSteps_def bit_index_def)
  have ms: "minDelay ?f = 25" "minDelay ?b = 25" "maxDelay ?p = 50" "speedStep ?f = 1"
    using vals by (simp_all add: minDelay_def maxDelay_def speedStep_def)
  have "currentFreqDelay (update_sweep ?f) = 34"
    using chirps_phases [of ?f 0] by (simp add: vals ms)
  moreover have "update_sweep ?b = ?p"
    using chirps_phases [of ?b 0] by (simp add: vals ms)
  moreover have "(update_sweep ^^ 300) ?p = ?p\<lparr>chirpCount := 300\<rparr>"
    using chirps_phases [of ?p 300] by (simp add: vals)
  moreover have "(update_sweep ^^ 301) ?p = init_state\<lparr>currentPattern := 9, currentFreqDelay := 50\<rparr>"
    using chirps_phases [of ?p 0] by (simp add: vals ms)
  ultimately show ?thesis by simp
qed

text \<open>
  Claim C3, evaluated on the code. After one press of the range button, four of the
  speed button and nine of the pattern button, the pass that switches the device on runs
  the chirps case on period 13 with step 8: the 16-bit subtraction of 24 wraps around to
  65525.
\<close>

theorem chirps_wrap_around:
  "currentRange (run chirp_wrap_inputs init_state) \<and>
   currentPattern (run chirp_wrap_inputs init_state) = 9 \<and>
   currentSpeed (run chirp_wrap_inputs init_state) = 4 \<and>
   currentFreqDelay (run chirp_wrap_inputs init_state) = 65525"
  by code_simp

text \<open>
  Claim C9, evaluated on the code. With the device set to the high band, step 8 and the
  chirps pattern, the pass that switches it on runs one tick of the falling sub-state on
  period 13, above the minimum 9. The tick does not decrease the period by three steps:
  the 16-bit subtraction of 24 wraps around and the period rises to 65525. The sub-state
  stays falling, and the next tick continues from there to 65501.
\<close>

theorem chirps_falling_tick_rises:
  "currentPattern (run chirp_setup_inputs init_state) = 9 \<and>
   chirpState (run chirp_setup_inputs init_state) = 0 \<and>
   speedStep (run chirp_setup_inputs init_state) = 8 \<and>
   minDelay (run chirp_setup_inputs init_state) = 9 \<and>
   currentFreqDelay (run chirp_setup_inputs init_state) = 13 \<and>
   isActive (main_loop press_power (run chirp_setup_inputs init_state)) \<and>
   chirpState (main_loop press_power (run chirp_setup_inputs init_state)) = 0 \<and>
   currentFreqDelay (main_loop press_power (run chirp_setup_inputs init_state)) = 65525 \<and>
   currentFreqDelay (run chirp_setup_inputs init_state) <
     currentFreqDelay (main_loop press_power (run chirp_setup_inputs init_state)) \<and>
   currentFreqDelay (main_loop idle (main_loop press_power (run chirp_setup_inputs init_state))) =
     65501"
  by code_simp

subsection \<open>Bounds on the period\<close>

























end
